theory Spec2Isabelle
  imports Main "HOL-Library.Word" "HOL-Library.Monad_Syntax"
begin

unbundle bit_operations_syntax

section \<open>Go values used by package tds\<close>

text \<open>
  A Go \<open>byte\<close> is an 8-bit word, a \<open>uint16\<close> a 16-bit word. A Go \<open>int\<close> is
  modelled by \<open>int\<close>; the conversion \<open>uint16(x)\<close> keeps the low 16 bits, which is
  \<open>word_of_int\<close>. A run-time panic (index or slice bound out of range) is the value
  \<open>None\<close> of an \<open>option\<close>; a Go \<open>error\<close> result is a value of the datatype
  \<open>error\<close>, with \<open>None\<close> for \<open>nil\<close>.
\<close>

type_synonym byte = "8 word"
type_synonym uint16 = "16 word"

text \<open>
  Error values. \<open>EOF\<close> is \<open>io.EOF\<close>. \<open>ErrEOFAfterZeroRead\<close> is the sentinel that
  \<open>ReadFrom\<close> returns; its declaration lies elsewhere in package tds, and it enters
  as an opaque constant, distinct from every other error value. \<open>ReaderError k\<close>
  stands for any other error value a reader may hand back. \<open>Errorf f args w\<close> is the
  result of \<open>fmt.Errorf\<close> with format \<open>f\<close>, the integer operands \<open>args\<close> and the
  operand of the \<open>%w\<close> verb: the new error wraps \<open>w\<close> when that operand is a non-nil
  error and wraps nothing otherwise.
\<close>

datatype error =
    EOF
  | ErrEOFAfterZeroRead
  | ReaderError nat
  | Errorf string "int list" "error option"

text \<open>\<open>errors.Is\<close>: follow the chain of wrapped errors, comparing with the target.\<close>

fun errors_Is :: "error option \<Rightarrow> error \<Rightarrow> bool" where
  "errors_Is None target = False"
| "errors_Is (Some (Errorf f args w)) target =
     (if Errorf f args w = target then True else errors_Is w target)"
| "errors_Is (Some e) target = (e = target)"

text \<open>Indexing and slicing with Go's bounds checks.\<close>

definition index :: "'a list \<Rightarrow> nat \<Rightarrow> 'a option" where
  "index xs i = (if i < length xs then Some (xs ! i) else None)"

definition store :: "'a list \<Rightarrow> nat \<Rightarrow> 'a \<Rightarrow> 'a list option" where
  "store xs i v = (if i < length xs then Some (xs[i := v]) else None)"

definition slice :: "'a list \<Rightarrow> nat \<Rightarrow> nat \<Rightarrow> 'a list option" where
  "slice xs lo hi =
     (if lo \<le> hi \<and> hi \<le> length xs then Some (take (hi - lo) (drop lo xs)) else None)"

text \<open>
  A sub-slice \<open>bs[lo:hi]\<close> shares its bytes with \<open>bs\<close>: after the callee has written
  into the sub-slice, \<open>bs\<close> holds the new bytes at \<open>lo\<close>.
\<close>

definition write_back :: "'a list \<Rightarrow> nat \<Rightarrow> 'a list \<Rightarrow> 'a list" where
  "write_back xs lo sub = take lo xs @ sub @ drop (lo + length sub) xs"

text \<open>\<open>binary.BigEndian.PutUint16\<close> and \<open>binary.BigEndian.Uint16\<close>.\<close>

definition PutUint16 :: "byte list \<Rightarrow> uint16 \<Rightarrow> byte list option" where
  "PutUint16 b v =
     (if length b < 2 then None
      else Some (b[0 := ucast (drop_bit 8 v), 1 := ucast v]))"

definition Uint16 :: "byte list \<Rightarrow> uint16 option" where
  "Uint16 b =
     (if length b < 2 then None
      else Some (ucast (b ! 1) OR push_bit 8 (ucast (b ! 0))))"

section \<open>The packet header (tds/packetHeader.go)\<close>

definition PacketHeaderSize :: nat where
  "PacketHeaderSize = 8"

record PacketHeader =
  MsgType :: byte
  Status :: byte
  Length :: uint16
  Channel :: uint16
  PacketNr :: byte
  Window :: byte

text \<open>The zero value of the struct.\<close>

definition zero_header :: PacketHeader where
  "zero_header =
     \<lparr>MsgType = 0, Status = 0, Length = 0, Channel = 0, PacketNr = 0, Window = 0\<rparr>"

definition NewPacketHeader :: "int \<Rightarrow> PacketHeader" where
  "NewPacketHeader packetSize = zero_header\<lparr>Length := word_of_int packetSize\<rparr>"

text \<open>
  \<open>Read\<close> encodes the header into the caller's buffer. The result is the buffer after
  the call, the count and the error.
\<close>

definition Read :: "PacketHeader \<Rightarrow> byte list \<Rightarrow> (byte list \<times> int \<times> error option) option" where
  "Read header bs =
     (if length bs \<noteq> PacketHeaderSize then
        Some (bs, 0,
          Some (Errorf ''target buffer has unexpected length, expected %d bytes, buffer length is %d''
                  [int PacketHeaderSize, int (length bs)] None))
      else do {
        bs \<leftarrow> store bs 0 (MsgType header);
        bs \<leftarrow> store bs 1 (Status header);
        sub \<leftarrow> slice bs 2 4;
        sub \<leftarrow> PutUint16 sub (Length header);
        bs \<leftarrow> Some (write_back bs 2 sub);
        sub \<leftarrow> slice bs 4 6;
        sub \<leftarrow> PutUint16 sub (Channel header);
        bs \<leftarrow> Some (write_back bs 4 sub);
        bs \<leftarrow> store bs 6 (PacketNr header);
        bs \<leftarrow> store bs 7 (Window header);
        Some (bs, int PacketHeaderSize, None)
      })"

text \<open>
  \<open>Write\<close> decodes the buffer into the header it is called on. The result is the
  header after the call, the count and the error.
\<close>

definition Write :: "PacketHeader \<Rightarrow> byte list \<Rightarrow> (PacketHeader \<times> int \<times> error option) option" where
  "Write header bs =
     (if length bs \<noteq> PacketHeaderSize then
        Some (header, 0,
          Some (Errorf ''passed buffer has unexpected length, expected 8 bytes, buffer length is %d''
                  [int (length bs)] None))
      else do {
        b0 \<leftarrow> index bs 0;
        header \<leftarrow> Some (header\<lparr>MsgType := b0\<rparr>);
        b1 \<leftarrow> index bs 1;
        header \<leftarrow> Some (header\<lparr>Status := b1\<rparr>);
        sub \<leftarrow> slice bs 2 4;
        uvarint \<leftarrow> Uint16 sub;
        header \<leftarrow> Some (header\<lparr>Length := uvarint\<rparr>);
        sub \<leftarrow> slice bs 4 6;
        uvarint \<leftarrow> Uint16 sub;
        header \<leftarrow> Some (header\<lparr>Channel := uvarint\<rparr>);
        b6 \<leftarrow> index bs 6;
        header \<leftarrow> Some (header\<lparr>PacketNr := b6\<rparr>);
        b7 \<leftarrow> index bs 7;
        header \<leftarrow> Some (header\<lparr>Window := b7\<rparr>);
        Some (header, int PacketHeaderSize, None)
      })"

text \<open>
  The packet-header types: a \<open>uint8\<close> with the named values \<open>iota + 1\<close>, in the
  order of the declaration.
\<close>

definition PacketHeaderType_names :: "string list" where
  "PacketHeaderType_names =
     [''TDS_BUF_LANG'',
      ''TDS_BUF_LOGIN'',
      ''TDS_BUF_RPC'',
      ''TDS_BUF_RESPONSE'',
      ''TDS_BUF_UNFMT'',
      ''TDS_BUF_ATTN'',
      ''TDS_BUF_BULK'',
      ''TDS_BUF_SETUP'',
      ''TDS_BUF_CLOSE'',
      ''TDS_BUF_ERROR'',
      ''TDS_BUF_PROTACK'',
      ''TDS_BUF_ECHO'',
      ''TDS_BUF_LOGOUT'',
      ''TDS_BUF_ENDPARAM'',
      ''TDS_BUF_NORMAL'',
      ''TDS_BUF_URGENT'',
      ''TDS_BUF_MIGRATE'',
      ''TDS_BUF_HELLO'',
      ''TDS_BUF_CMDSEQ_NORMAL'',
      ''TDS_BUF_CMDSEQ_LOGIN'',
      ''TDS_BUF_CMDSEQ_LIVENESS'',
      ''TDS_BUF_CMDSEQ_RESERVED1'',
      ''TDS_BUF_CMDSEQ_RESERVED2'']"

definition PacketHeaderType_values :: "byte list" where
  "PacketHeaderType_values =
     map (\<lambda>iota. word_of_nat (iota + 1)) [0 ..< length PacketHeaderType_names]"

text \<open>The status bits.\<close>

definition TDS_BUFSTAT_EOM :: byte where
  "TDS_BUFSTAT_EOM = 0x1"

definition TDS_BUFSTAT_ATTNACK :: byte where
  "TDS_BUFSTAT_ATTNACK = 0x2"

definition TDS_BUFSTAT_ATTN :: byte where
  "TDS_BUFSTAT_ATTN = 0x4"

definition TDS_BUFSTAT_EVENT :: byte where
  "TDS_BUFSTAT_EVENT = 0x8"

definition TDS_BUFSTAT_SEAL :: byte where
  "TDS_BUFSTAT_SEAL = 0x10"

definition TDS_BUFSTAT_ENCRYPT :: byte where
  "TDS_BUFSTAT_ENCRYPT = 0x20"

definition TDS_BUFSTAT_SYMENCRYPT :: byte where
  "TDS_BUFSTAT_SYMENCRYPT = 0x40"

text \<open>
  \<open>ReadFrom\<close> makes one call of the reader's \<open>Read\<close> on a fresh buffer of eight
  bytes. The reader is any function from the buffer to the buffer after the call, the
  count and the error; a reader leaves the length of the buffer as it is.
\<close>

type_synonym reader = "byte list \<Rightarrow> byte list \<times> int \<times> error option"

definition ReadFrom :: "PacketHeader \<Rightarrow> reader \<Rightarrow> (PacketHeader \<times> int \<times> error option) option" where
  "ReadFrom header r =
     (case r (replicate PacketHeaderSize 0) of (bs, n, err) \<Rightarrow>
        if err \<noteq> None \<or> n \<noteq> int PacketHeaderSize then
          if n = 0 \<and> errors_Is err EOF then Some (header, 0, Some ErrEOFAfterZeroRead)
          else Some (header, n,
                 Some (Errorf ''read %d of %d expected bytes from reader: %w''
                         [n, int PacketHeaderSize] err))
        else Write header bs)"

section \<open>The name of a dynamic status (tds/dynamicstatustype_string.go)\<close>

text \<open>\<open>strconv.FormatInt\<close> in base 10.\<close>

fun format_nat :: "nat \<Rightarrow> string" where
  "format_nat n =
     (if n < 10 then [''0123456789'' ! n]
      else format_nat (n div 10) @ [''0123456789'' ! (n mod 10)])"

declare format_nat.simps [simp del]

definition FormatInt :: "int \<Rightarrow> string" where
  "FormatInt i = (if i < 0 then ''-'' @ format_nat (nat (- i)) else format_nat (nat i))"

definition DynamicStatusType_name_0 :: string where
  "DynamicStatusType_name_0 = ''TDS_DYNAMIC_UNUSEDTDS_DYNAMIC_HASARGSTDS_DYNAMIC_SUPPRESS_FMT''"

definition DynamicStatusType_name_1 :: string where
  "DynamicStatusType_name_1 = ''TDS_DYNAMIC_BATCH_PARAMS''"

definition DynamicStatusType_name_2 :: string where
  "DynamicStatusType_name_2 = ''TDS_DYNAMIC_SUPPRESS_PARAMFMT''"

definition DynamicStatusType_index_0 :: "byte list" where
  "DynamicStatusType_index_0 = [0, 18, 37, 61]"

text \<open>
  \<open>DynamicStatusType\<close> is an unsigned integer type (the generated first case is
  \<open>i <= 2\<close> with no lower bound); its declaration, and so its width, lies elsewhere
  in package tds, and the width is the parameter \<open>'a\<close>. \<open>int64(i)\<close> extends with
  zeros and reads the 64 bits as two's complement.
\<close>

definition int64 :: "'a::len word \<Rightarrow> int" where
  "int64 i = sint (ucast i :: 64 word)"

definition DynamicStatusType_String :: "'a::len word \<Rightarrow> string option" where
  "DynamicStatusType_String i =
     (if i \<le> 2 then do {
        lo \<leftarrow> index DynamicStatusType_index_0 (unat i);
        hi \<leftarrow> index DynamicStatusType_index_0 (unat (i + 1));
        slice DynamicStatusType_name_0 (unat lo) (unat hi)
      }
      else if i = 4 then Some DynamicStatusType_name_1
      else if i = 8 then Some DynamicStatusType_name_2
      else Some (''DynamicStatusType('' @ FormatInt (int64 i) @ '')''))"

section \<open>Message splitter and assembler\<close>

text \<open>
  Modelled from the spec: the Packet, a header and the payload bytes that follow it on
  the wire. Its declaration lies outside the header codec.
\<close>

record Packet =
  pkt_header :: PacketHeader
  pkt_payload :: "byte list"

text \<open>
  Modelled from the spec: the wrapping step of the Message Splitter, whose code lies
  outside the header codec. A chunk is wrapped with a header whose length is 8 plus the
  size of the chunk, with the channel and the message type of the message, the given
  packet number and the given status. The header is made by \<open>NewPacketHeader\<close>.
\<close>

definition wrap_chunk :: "uint16 \<Rightarrow> byte \<Rightarrow> byte \<Rightarrow> byte \<Rightarrow> byte list \<Rightarrow> Packet" where
  "wrap_chunk channel msgType status nr chunk =
     \<lparr>pkt_header = (NewPacketHeader (int (PacketHeaderSize + length chunk)))
        \<lparr>MsgType := msgType, Status := status, Channel := channel, PacketNr := nr\<rparr>,
      pkt_payload = chunk\<rparr>"

text \<open>
  Modelled from the spec: the Message Splitter, whose code lies outside the header codec.
  The inputs are the channel, the message type, the status bits the caller supplies for
  the message (encryption markers and the like), the maximum packet size \<open>M\<close>, the
  packet number last used on the channel and the payload. The loop carves off up to
  \<open>M - 8\<close> bytes of what remains; packet numbers go up by one from the last-used
  value, modulo 256; every chunk carries the caller's status bits, and the final chunk
  carries the end-of-message bit as well. An empty payload gives one packet. With
  \<open>M\<close> at most 8 and a payload that is not empty the loop carves nothing off and does
  not end, which is the value \<open>None\<close>.
\<close>

partial_function (option) split_message ::
  "uint16 \<Rightarrow> byte \<Rightarrow> byte \<Rightarrow> nat \<Rightarrow> byte \<Rightarrow> byte list \<Rightarrow> Packet list option" where
  "split_message channel msgType status M lastNr payload =
     (if length payload \<le> M - PacketHeaderSize then
        Some [wrap_chunk channel msgType (status OR TDS_BUFSTAT_EOM) (lastNr + 1) payload]
      else
        Option.bind
          (split_message channel msgType status M (lastNr + 1)
             (drop (M - PacketHeaderSize) payload))
          (\<lambda>rest. Some (wrap_chunk channel msgType status (lastNr + 1)
                               (take (M - PacketHeaderSize) payload) # rest)))"

declare split_message.simps [code]

text \<open>
  Modelled from the spec: the state of the Message Assembler, whose code lies outside
  the header codec. For each channel it keeps the message in progress, if any (the
  message type that opened it and the bytes so far), and the packet number seen last.
  A channel that was never used has no entry.
\<close>

record accumulator =
  in_progress :: "(byte \<times> byte list) option"
  last_nr :: "byte option"

type_synonym assembler = "uint16 \<rightharpoonup> accumulator"

text \<open>
  Modelled from the spec: the two conditions of the error taxonomy that the assembler
  raises, and the logical message it hands over (message type, status flags, payload).
\<close>

datatype transport_error = SequenceError | ProtocolViolation

record message =
  msg_type :: byte
  msg_status :: byte
  msg_payload :: "byte list"

text \<open>
  Modelled from the spec: the Message Assembler receiving one packet. A packet number other than the previous
  one plus 1 (modulo 256) is reported and the packet is kept. A packet whose message type
  differs from the one that opened the message in progress is a protocol violation, and
  the message is given up. Otherwise the payload is appended; with the end-of-message
  bit set the message is handed over, with its type and the status of the closing
  packet, and the accumulator is empty again. The result is the new state, the errors
  reported and the message completed, if any.
\<close>

definition assembler_receive ::
  "assembler \<Rightarrow> Packet \<Rightarrow> assembler \<times> transport_error list \<times> message option" where
  "assembler_receive asm p =
     (let h = pkt_header p;
          acc = (case asm (Channel h) of
                   None \<Rightarrow> \<lparr>in_progress = None, last_nr = None\<rparr>
                 | Some a \<Rightarrow> a);
          gap = (case last_nr acc of
                   None \<Rightarrow> []
                 | Some prev \<Rightarrow> if PacketNr h = prev + 1 then [] else [SequenceError]);
          opened = (case in_progress acc of
                      None \<Rightarrow> Some (MsgType h, [])
                    | Some (t, buf) \<Rightarrow> if t = MsgType h then Some (t, buf) else None)
      in case opened of
           None \<Rightarrow>
             (asm(Channel h \<mapsto> \<lparr>in_progress = None, last_nr = Some (PacketNr h)\<rparr>),
              gap @ [ProtocolViolation], None)
         | Some (t, buf) \<Rightarrow>
             if Status h AND TDS_BUFSTAT_EOM \<noteq> 0 then
               (asm(Channel h \<mapsto> \<lparr>in_progress = None, last_nr = Some (PacketNr h)\<rparr>),
                gap,
                Some \<lparr>msg_type = t, msg_status = Status h, msg_payload = buf @ pkt_payload p\<rparr>)
             else
               (asm(Channel h \<mapsto>
                  \<lparr>in_progress = Some (t, buf @ pkt_payload p), last_nr = Some (PacketNr h)\<rparr>),
                gap, None))"

text \<open>
  Modelled from the spec: the assembler receiving a sequence of packets in wire order,
  collecting the errors reported and the messages completed.
\<close>

fun assembler_run ::
  "assembler \<Rightarrow> Packet list \<Rightarrow> assembler \<times> transport_error list \<times> message list" where
  "assembler_run asm [] = (asm, [], [])"
| "assembler_run asm (p # ps) =
     (case assembler_receive asm p of (asm1, errs1, m) \<Rightarrow>
        case assembler_run asm1 ps of (asm2, errs2, ms) \<Rightarrow>
          (asm2, errs1 @ errs2, (case m of None \<Rightarrow> ms | Some x \<Rightarrow> x # ms)))"

text \<open>Modelled from the spec: the message in progress on a channel, if any.\<close>

definition pending :: "assembler \<Rightarrow> uint16 \<Rightarrow> (byte \<times> byte list) option" where
  "pending asm channel = (case asm channel of None \<Rightarrow> None | Some a \<Rightarrow> in_progress a)"

section \<open>Properties of the header codec\<close>

lemma length_8_cases:
  assumes "length bs = 8"
  obtains b0 b1 b2 b3 b4 b5 b6 b7 where "bs = [b0, b1, b2, b3, b4, b5, b6, b7]"
  using assms by (auto simp: numeral_eq_Suc length_Suc_conv)

lemma Read_8:
  "Read h [b0, b1, b2, b3, b4, b5, b6, b7] =
     Some ([MsgType h, Status h, ucast (drop_bit 8 (Length h)), ucast (Length h),
            ucast (drop_bit 8 (Channel h)), ucast (Channel h), PacketNr h, Window h], 8, None)"
  by (simp add: Read_def PacketHeaderSize_def store_def slice_def PutUint16_def write_back_def)

lemma Write_8:
  "Write h [b0, b1, b2, b3, b4, b5, b6, b7] =
     Some (\<lparr>MsgType = b0, Status = b1,
            Length = ucast b3 OR push_bit 8 (ucast b2),
            Channel = ucast b5 OR push_bit 8 (ucast b4),
            PacketNr = b6, Window = b7\<rparr>, 8, None)"
  by (simp add: Write_def PacketHeaderSize_def index_def slice_def Uint16_def)

lemma be16_decode_encode:
  "ucast (ucast v :: byte) OR push_bit 8 (ucast (ucast (drop_bit 8 v) :: byte)) = (v :: uint16)"
  by (rule bit_word_eqI) (auto simp: bit_simps)

lemma be16_encode_hi:
  "(ucast (drop_bit 8 (ucast (lo :: byte) OR push_bit 8 (ucast hi) :: uint16)) :: byte) = (hi :: byte)"
  by (rule bit_word_eqI) (auto simp: bit_simps dest: bit_imp_le_length)

lemma be16_encode_lo:
  "(ucast (ucast lo OR push_bit 8 (ucast (hi :: byte)) :: uint16) :: byte) = (lo :: byte)"
  by (rule bit_word_eqI) (auto simp: bit_simps)

lemma unat_hi: "unat (ucast (drop_bit 8 (v :: uint16)) :: byte) = unat v div 256"
proof -
  have "unat v < 2 ^ 16" using unsigned_less [of v, where 'a = nat] by simp
  then have small: "unat v div 256 < 256" by simp
  have "unat (ucast (drop_bit 8 v) :: byte) = unat (drop_bit 8 v) mod 2 ^ 8"
    by (simp only: unsigned_ucast_eq take_bit_eq_mod len_bit0 len_num1) simp
  also have "unat (drop_bit 8 v) = drop_bit 8 (unat v)"
    by (rule unat_drop_bit_eq)
  also have "drop_bit 8 (unat v) = unat v div 2 ^ 8"
    by (rule drop_bit_eq_div)
  finally show ?thesis using small by simp
qed

lemma unat_lo: "unat (ucast (v :: uint16) :: byte) = unat v mod 256"
  by (simp add: unsigned_ucast_eq take_bit_eq_mod)

text \<open>
  Claim C1. Encoding any header with \<open>Read\<close> into a buffer of eight bytes and decoding
  the bytes with \<open>Write\<close> gives back the header, field for field, whatever the
  receiving header held before.
\<close>

theorem C1_decode_encode_roundtrip:
  assumes "length buf = 8"
  shows "\<exists>bs. Read h buf = Some (bs, 8, None) \<and> length bs = 8 \<and> Write h0 bs = Some (h, 8, None)"
proof -
  from assms obtain b0 b1 b2 b3 b4 b5 b6 b7 where buf: "buf = [b0, b1, b2, b3, b4, b5, b6, b7]"
    by (rule length_8_cases)
  have "Write h0 [MsgType h, Status h, ucast (drop_bit 8 (Length h)), ucast (Length h),
            ucast (drop_bit 8 (Channel h)), ucast (Channel h), PacketNr h, Window h]
        = Some (h, 8, None)"
    unfolding Write_8 by (simp add: be16_decode_encode)
  then show ?thesis
    unfolding buf Read_8 by simp
qed

theorem C1_witness:
  "length (replicate 8 (0 :: byte)) = 8 \<and>
   (\<exists>bs. Read \<lparr>MsgType = 15, Status = 1, Length = 520, Channel = 3, PacketNr = 7, Window = 2\<rparr>
            (replicate 8 0) = Some (bs, 8, None) \<and> length bs = 8 \<and>
         Write zero_header bs =
           Some (\<lparr>MsgType = 15, Status = 1, Length = 520, Channel = 3, PacketNr = 7, Window = 2\<rparr>, 8, None))"
  using C1_decode_encode_roundtrip [of "replicate 8 0"
      "\<lparr>MsgType = 15, Status = 1, Length = 520, Channel = 3, PacketNr = 7, Window = 2\<rparr>" zero_header]
  by simp

text \<open>
  Claim C2. \<open>Read\<close> fills exactly eight bytes: byte 0 is the message type, byte 1 the
  status, bytes 2 and 3 the length with the high byte first, bytes 4 and 5 the channel
  with the high byte first, byte 6 the packet number and byte 7 the window. Nothing is
  added before, between or after.
\<close>

theorem C2_encode_layout:
  assumes "length buf = 8"
  shows "\<exists>bs. Read h buf = Some (bs, 8, None) \<and> length bs = 8 \<and>
           bs ! 0 = MsgType h \<and> bs ! 1 = Status h \<and>
           unat (bs ! 2) = unat (Length h) div 256 \<and> unat (bs ! 3) = unat (Length h) mod 256 \<and>
           unat (bs ! 4) = unat (Channel h) div 256 \<and> unat (bs ! 5) = unat (Channel h) mod 256 \<and>
           bs ! 6 = PacketNr h \<and> bs ! 7 = Window h"
proof -
  from assms obtain b0 b1 b2 b3 b4 b5 b6 b7 where buf: "buf = [b0, b1, b2, b3, b4, b5, b6, b7]"
    by (rule length_8_cases)
  let ?bs = "[MsgType h, Status h, ucast (drop_bit 8 (Length h)), ucast (Length h),
              ucast (drop_bit 8 (Channel h)), ucast (Channel h), PacketNr h, Window h]"
  have e2: "?bs ! 2 = ucast (drop_bit 8 (Length h))" and e3: "?bs ! 3 = ucast (Length h)"
    and e4: "?bs ! 4 = ucast (drop_bit 8 (Channel h))" and e5: "?bs ! 5 = ucast (Channel h)"
    by simp_all
  have "unat (?bs ! 2) = unat (Length h) div 256" unfolding e2 by (rule unat_hi)
  moreover have "unat (?bs ! 3) = unat (Length h) mod 256" unfolding e3 by (rule unat_lo)
  moreover have "unat (?bs ! 4) = unat (Channel h) div 256" unfolding e4 by (rule unat_hi)
  moreover have "unat (?bs ! 5) = unat (Channel h) mod 256" unfolding e5 by (rule unat_lo)
  moreover have "length ?bs = 8" "?bs ! 0 = MsgType h" "?bs ! 1 = Status h"
      "?bs ! 6 = PacketNr h" "?bs ! 7 = Window h"
    by simp_all
  ultimately show ?thesis
    unfolding buf Read_8 by blast
qed

theorem C2_witness:
  "length (replicate 8 (0 :: byte)) = 8 \<and>
   (\<exists>bs. Read \<lparr>MsgType = 15, Status = 1, Length = 0x0208, Channel = 0x0103,
                  PacketNr = 7, Window = 2\<rparr> (replicate 8 0) = Some (bs, 8, None) \<and>
         length bs = 8 \<and> bs ! 0 = 15 \<and> bs ! 1 = 1 \<and>
         unat (bs ! 2) = 2 \<and> unat (bs ! 3) = 8 \<and> unat (bs ! 4) = 1 \<and> unat (bs ! 5) = 3 \<and>
         bs ! 6 = 7 \<and> bs ! 7 = 2)"
  using C2_encode_layout [of "replicate 8 0"
      "\<lparr>MsgType = 15, Status = 1, Length = 0x0208, Channel = 0x0103, PacketNr = 7, Window = 2\<rparr>"]
  by simp

text \<open>
  Claim C4. \<open>Write\<close> and \<open>Read\<close> fail exactly when the buffer does not have eight
  bytes: then the count is 0, the error is not nil, the header (for \<open>Write\<close>) and the
  buffer (for \<open>Read\<close>) are untouched. On a buffer of eight bytes both return the count
  8 and no error, and neither panics.
\<close>

theorem C4_length_check:
  "(length bs \<noteq> 8 \<longrightarrow>
      (\<exists>e. Write h bs = Some (h, 0, Some e)) \<and> (\<exists>e. Read h bs = Some (bs, 0, Some e))) \<and>
   (length bs = 8 \<longrightarrow>
      (\<exists>h'. Write h bs = Some (h', 8, None)) \<and> (\<exists>bs'. Read h bs = Some (bs', 8, None)))"
proof (cases "length bs = 8")
  case True
  then obtain b0 b1 b2 b3 b4 b5 b6 b7 where "bs = [b0, b1, b2, b3, b4, b5, b6, b7]"
    by (rule length_8_cases)
  then show ?thesis by (simp add: Read_8 Write_8)
next
  case False
  then show ?thesis by (simp add: Read_def Write_def PacketHeaderSize_def)
qed

theorem C4_witness:
  "(\<exists>e. Write zero_header [1, 2, 3] = Some (zero_header, 0, Some e)) \<and>
   (\<exists>e. Read zero_header [1, 2, 3] = Some ([1, 2, 3], 0, Some e)) \<and>
   (\<exists>h'. Write zero_header [1, 2, 3, 4, 5, 6, 7, 8] = Some (h', 8, None)) \<and>
   (\<exists>bs'. Read zero_header [1, 2, 3, 4, 5, 6, 7, 8] = Some (bs', 8, None))"
  using C4_length_check [of "[1, 2, 3]" zero_header]
    C4_length_check [of "[1, 2, 3, 4, 5, 6, 7, 8]" zero_header]
  by simp

text \<open>
  Claim C8. \<open>Write\<close> accepts every buffer of eight bytes, whatever its contents, and
  encoding the decoded header with \<open>Read\<close> gives the same eight bytes again.
\<close>

theorem C8_encode_decode_roundtrip:
  assumes "length bs = 8" and "length buf = 8"
  shows "\<exists>h'. Write h bs = Some (h', 8, None) \<and> Read h' buf = Some (bs, 8, None)"
proof -
  from assms(1) obtain b0 b1 b2 b3 b4 b5 b6 b7 where bs: "bs = [b0, b1, b2, b3, b4, b5, b6, b7]"
    by (rule length_8_cases)
  from assms(2) obtain c0 c1 c2 c3 c4 c5 c6 c7 where buf: "buf = [c0, c1, c2, c3, c4, c5, c6, c7]"
    by (rule length_8_cases)
  let ?h = "\<lparr>MsgType = b0, Status = b1, Length = ucast b3 OR push_bit 8 (ucast b2),
             Channel = ucast b5 OR push_bit 8 (ucast b4), PacketNr = b6, Window = b7\<rparr>"
  have "Read ?h buf = Some (bs, 8, None)"
    unfolding bs buf Read_8
    by (simp only: PacketHeader.select_convs be16_encode_hi be16_encode_lo)
  then show ?thesis
    unfolding bs Write_8 by blast
qed

theorem C8_witness:
  "length [255, 0, 0, 3, 128, 1, 9, 200 :: byte] = 8 \<and> length (replicate 8 (0 :: byte)) = 8 \<and>
   (\<exists>h'. Write zero_header [255, 0, 0, 3, 128, 1, 9, 200] = Some (h', 8, None) \<and>
      Read h' (replicate 8 0) = Some ([255, 0, 0, 3, 128, 1, 9, 200], 8, None))"
  using C8_encode_decode_roundtrip [of "[255, 0, 0, 3, 128, 1, 9, 200]" "replicate 8 0" zero_header]
  by simp

text \<open>
  Claim C3. When the reader's call returns the count 0 together with an error that is
  \<open>io.EOF\<close>, \<open>ReadFrom\<close> returns the count 0 and the sentinel
  \<open>ErrEOFAfterZeroRead\<close>. When the call returns some but fewer than eight bytes,
  \<open>ReadFrom\<close> returns that count and an error built by \<open>fmt.Errorf\<close>, which is not
  the sentinel; under \<open>errors.Is\<close> it matches the sentinel only if the reader's own
  error already did. The header is untouched in both cases.
\<close>

theorem C3_ReadFrom_eof:
  "(errors_Is err EOF \<longrightarrow>
      ReadFrom h (\<lambda>bs. (bs', 0, err)) = Some (h, 0, Some ErrEOFAfterZeroRead)) \<and>
   (0 < n \<and> n < 8 \<longrightarrow>
      (\<exists>e. ReadFrom h (\<lambda>bs. (bs', n, err)) = Some (h, n, Some e) \<and>
           e \<noteq> ErrEOFAfterZeroRead \<and>
           (errors_Is (Some e) ErrEOFAfterZeroRead \<longleftrightarrow> errors_Is err ErrEOFAfterZeroRead)))"
  by (auto simp: ReadFrom_def PacketHeaderSize_def)

theorem C3_witness:
  "errors_Is (Some EOF) EOF \<and>
   ReadFrom zero_header (\<lambda>bs. (replicate 8 0, 0, Some EOF)) =
     Some (zero_header, 0, Some ErrEOFAfterZeroRead) \<and>
   (\<exists>e. ReadFrom zero_header (\<lambda>bs. (replicate 8 0, 3, Some EOF)) = Some (zero_header, 3, Some e) \<and>
        e \<noteq> ErrEOFAfterZeroRead \<and> \<not> errors_Is (Some e) ErrEOFAfterZeroRead)"
  using C3_ReadFrom_eof [of "Some EOF" zero_header "replicate 8 0" 3]
  by simp

lemma unat_be16:
  "unat (ucast (lo :: byte) OR push_bit 8 (ucast (hi :: byte)) :: uint16) = 256 * unat hi + unat lo"
  by (metis be16_encode_hi be16_encode_lo mult_div_mod_eq unat_hi unat_lo)

text \<open>
  Claim C5, as stated, fails: \<open>NewPacketHeader(0)\<close> has length 0, and \<open>Write\<close>
  decodes a buffer whose bytes 2 and 3 hold the value 3 into a header of length 3,
  without an error.
\<close>

theorem C5_counterexample:
  "\<not> (8 \<le> unat (Length (NewPacketHeader 0))) \<and>
   Write zero_header [4, 1, 0, 3, 0, 0, 0, 0] =
     Some (\<lparr>MsgType = 4, Status = 1, Length = 3, Channel = 0, PacketNr = 0, Window = 0\<rparr>, 8, None)"
  by (simp add: NewPacketHeader_def zero_header_def Write_8)

text \<open>
  Claim C5, amended. Neither function checks the length against the header size. A
  header built by \<open>NewPacketHeader\<close> has a length of at least 8 exactly when the
  argument modulo \<open>2^16\<close> is at least 8, and a header decoded by \<open>Write\<close> from eight
  bytes has the length that bytes 2 and 3 spell, high byte first.
\<close>

theorem C5_length_unchecked:
  "(8 \<le> unat (Length (NewPacketHeader packetSize)) \<longleftrightarrow> 8 \<le> packetSize mod 2 ^ 16) \<and>
   (length bs = 8 \<longrightarrow>
      (\<exists>h'. Write h bs = Some (h', 8, None) \<and>
            unat (Length h') = 256 * unat (bs ! 2) + unat (bs ! 3)))"
proof -
  have "uint (Length (NewPacketHeader packetSize)) = packetSize mod 2 ^ 16"
    by (simp add: NewPacketHeader_def uint_word_of_int)
  then have "int (unat (Length (NewPacketHeader packetSize))) = packetSize mod 2 ^ 16"
    by simp
  then have new:
    "8 \<le> unat (Length (NewPacketHeader packetSize)) \<longleftrightarrow> 8 \<le> packetSize mod 2 ^ 16"
    by linarith
  have dec: "\<exists>h'. Write h bs = Some (h', 8, None) \<and>
            unat (Length h') = 256 * unat (bs ! 2) + unat (bs ! 3)" if "length bs = 8"
  proof -
    from that obtain b0 b1 b2 b3 b4 b5 b6 b7 where bs: "bs = [b0, b1, b2, b3, b4, b5, b6, b7]"
      by (rule length_8_cases)
    have "unat (ucast b3 OR push_bit 8 (ucast b2) :: uint16) = 256 * unat b2 + unat b3"
      by (rule unat_be16)
    then show ?thesis unfolding bs Write_8 by simp
  qed
  from new dec show ?thesis by blast
qed

theorem C5_witness:
  "(8 \<le> unat (Length (NewPacketHeader 512)) \<longleftrightarrow> 8 \<le> (512 :: int) mod 2 ^ 16) \<and>
   length [4, 1, 2, 0, 0, 0, 0, 0 :: byte] = 8 \<and>
   (\<exists>h'. Write zero_header [4, 1, 2, 0, 0, 0, 0, 0] = Some (h', 8, None) \<and>
            unat (Length h') = 256 * 2 + 0)"
  using C5_length_unchecked [of 512 "[4, 1, 2, 0, 0, 0, 0, 0]" zero_header]
  by simp

lemma PacketHeaderType_values_eq:
  "PacketHeaderType_values =
     [1, 2, 3, 4, 5, 6, 7, 8, 9, 10, 11, 12, 13, 14, 15, 16, 17, 18, 19, 20, 21, 22, 23]"
  by (simp add: PacketHeaderType_values_def PacketHeaderType_names_def upt_rec)

text \<open>
  Claim C9. For every argument, \<open>NewPacketHeader\<close> returns a header whose length is
  the argument modulo \<open>2^16\<close> and whose other fields are zero; zero is not among the
  declared packet-header types, the least of which is 1.
\<close>

theorem C9_NewPacketHeader:
  "uint (Length (NewPacketHeader packetSize)) = packetSize mod 2 ^ 16 \<and>
   MsgType (NewPacketHeader packetSize) = 0 \<and>
   Status (NewPacketHeader packetSize) = 0 \<and>
   Channel (NewPacketHeader packetSize) = 0 \<and>
   PacketNr (NewPacketHeader packetSize) = 0 \<and>
   Window (NewPacketHeader packetSize) = 0 \<and>
   MsgType (NewPacketHeader packetSize) \<notin> set PacketHeaderType_values \<and>
   Min (set PacketHeaderType_values) = 1"
  by (simp add: NewPacketHeader_def zero_header_def uint_word_of_int PacketHeaderType_values_eq)

section \<open>Properties of the name of a dynamic status\<close>

lemma small_word:
  assumes "4 \<le> LENGTH('a::len)" and "k < 16"
  shows "unat (word_of_nat k :: 'a word) = k"
proof -
  have "(2::nat) ^ 4 \<le> 2 ^ LENGTH('a)"
    using assms(1) by (intro power_increasing) simp_all
  with assms(2) have "k < 2 ^ LENGTH('a)" by simp
  then show ?thesis by (simp add: unat_of_nat)
qed

lemma small_words:
  assumes "4 \<le> LENGTH('a::len)"
  shows "unat (0 :: 'a word) = 0" "unat (1 :: 'a word) = 1" "unat (2 :: 'a word) = 2"
    "unat (3 :: 'a word) = 3" "unat (4 :: 'a word) = 4" "unat (8 :: 'a word) = 8"
  using small_word [OF assms, of 1] small_word [OF assms, of 2] small_word [OF assms, of 3]
    small_word [OF assms, of 4] small_word [OF assms, of 8]
  by simp_all

lemma word_neq_by_unat: "unat a = m \<Longrightarrow> unat b = n \<Longrightarrow> m \<noteq> n \<Longrightarrow> a \<noteq> b"
  by auto

lemma small_words_distinct:
  assumes "4 \<le> LENGTH('a::len)"
  shows "(1 :: 'a word) \<noteq> 0" "(2 :: 'a word) \<noteq> 0" "(2 :: 'a word) \<noteq> 1"
    "(4 :: 'a word) \<noteq> 0" "(4 :: 'a word) \<noteq> 1" "(4 :: 'a word) \<noteq> 2"
    "(8 :: 'a word) \<noteq> 0" "(8 :: 'a word) \<noteq> 1" "(8 :: 'a word) \<noteq> 2" "(8 :: 'a word) \<noteq> 4"
proof -
  note sw = small_words [OF assms]
  show "(1 :: 'a word) \<noteq> 0" by (rule word_neq_by_unat [OF sw(2) sw(1)]) simp
  show "(2 :: 'a word) \<noteq> 0" by (rule word_neq_by_unat [OF sw(3) sw(1)]) simp
  show "(2 :: 'a word) \<noteq> 1" by (rule word_neq_by_unat [OF sw(3) sw(2)]) simp
  show "(4 :: 'a word) \<noteq> 0" by (rule word_neq_by_unat [OF sw(5) sw(1)]) simp
  show "(4 :: 'a word) \<noteq> 1" by (rule word_neq_by_unat [OF sw(5) sw(2)]) simp
  show "(4 :: 'a word) \<noteq> 2" by (rule word_neq_by_unat [OF sw(5) sw(3)]) simp
  show "(8 :: 'a word) \<noteq> 0" by (rule word_neq_by_unat [OF sw(6) sw(1)]) simp
  show "(8 :: 'a word) \<noteq> 1" by (rule word_neq_by_unat [OF sw(6) sw(2)]) simp
  show "(8 :: 'a word) \<noteq> 2" by (rule word_neq_by_unat [OF sw(6) sw(3)]) simp
  show "(8 :: 'a word) \<noteq> 4" by (rule word_neq_by_unat [OF sw(6) sw(5)]) simp
qed

lemma le_2_cases:
  assumes "4 \<le> LENGTH('a::len)" and "(i :: 'a word) \<le> 2"
  shows "i = 0 \<or> i = 1 \<or> i = 2"
proof -
  note sw = small_words [OF assms(1)]
  from assms(2) have "unat i \<le> 2"
    unfolding word_le_nat_alt sw .
  then have "unat i = 0 \<or> unat i = 1 \<or> unat i = 2" by arith
  then have "unat i = unat (0 :: 'a word) \<or> unat i = unat (1 :: 'a word) \<or> unat i = unat (2 :: 'a word)"
    unfolding sw .
  then show ?thesis
    unfolding word_unat_eq_iff .
qed

lemma String_names:
  assumes "4 \<le> LENGTH('a::len)"
  shows "DynamicStatusType_String (0 :: 'a word) = Some ''TDS_DYNAMIC_UNUSED''"
    and "DynamicStatusType_String (1 :: 'a word) = Some ''TDS_DYNAMIC_HASARGS''"
    and "DynamicStatusType_String (2 :: 'a word) = Some ''TDS_DYNAMIC_SUPPRESS_FMT''"
proof -
  note sw = small_words [OF assms]
  have le: "(0 :: 'a word) \<le> 2" "(1 :: 'a word) \<le> 2" "(2 :: 'a word) \<le> 2"
    unfolding word_le_nat_alt sw by simp_all
  have s: "(0 :: 'a word) + 1 = 1" "(1 :: 'a word) + 1 = 2" "(2 :: 'a word) + 1 = 3"
    by simp_all
  show "DynamicStatusType_String (0 :: 'a word) = Some ''TDS_DYNAMIC_UNUSED''"
    unfolding DynamicStatusType_String_def s sw
    by (simp add: le DynamicStatusType_index_0_def index_def slice_def DynamicStatusType_name_0_def)
  show "DynamicStatusType_String (1 :: 'a word) = Some ''TDS_DYNAMIC_HASARGS''"
    unfolding DynamicStatusType_String_def s sw
    by (simp add: le DynamicStatusType_index_0_def index_def slice_def DynamicStatusType_name_0_def)
  show "DynamicStatusType_String (2 :: 'a word) = Some ''TDS_DYNAMIC_SUPPRESS_FMT''"
    unfolding DynamicStatusType_String_def s sw
    by (simp add: le DynamicStatusType_index_0_def index_def slice_def DynamicStatusType_name_0_def)
qed

lemma String_value:
  assumes "4 \<le> LENGTH('a::len)"
  shows "DynamicStatusType_String (i :: 'a word) =
     Some (if i = 0 then ''TDS_DYNAMIC_UNUSED''
           else if i = 1 then ''TDS_DYNAMIC_HASARGS''
           else if i = 2 then ''TDS_DYNAMIC_SUPPRESS_FMT''
           else if i = 4 then ''TDS_DYNAMIC_BATCH_PARAMS''
           else if i = 8 then ''TDS_DYNAMIC_SUPPRESS_PARAMFMT''
           else ''DynamicStatusType('' @ FormatInt (int64 i) @ '')'')"
proof (cases "i \<le> 2")
  case True
  then have "i = 0 \<or> i = 1 \<or> i = 2" by (rule le_2_cases [OF assms])
  then show ?thesis
    using String_names [OF assms] small_words_distinct [OF assms]
    by auto
next
  case False
  have le: "(0 :: 'a word) \<le> 2" "(1 :: 'a word) \<le> 2" "(2 :: 'a word) \<le> 2"
    unfolding word_le_nat_alt small_words [OF assms] by simp_all
  from False le have "i \<noteq> 0" "i \<noteq> 1" "i \<noteq> 2" by auto
  with False show ?thesis
    using small_words_distinct [OF assms]
    by (simp add: DynamicStatusType_String_def DynamicStatusType_name_1_def
        DynamicStatusType_name_2_def)
qed

lemma int64_uint:
  assumes "LENGTH('a::len) < 64"
  shows "int64 (i :: 'a word) = uint i"
proof -
  have "uint i < 2 ^ LENGTH('a)" by simp
  also have "(2::int) ^ LENGTH('a) \<le> 2 ^ 63"
    using assms by (intro power_increasing) simp_all
  finally have small: "uint i < 2 ^ 63" .
  have "take_bit 64 (uint i) = uint i"
    using small uint_nonnegative [of i] by (intro take_bit_int_eq_self) simp_all
  then have "uint (ucast i :: 64 word) = uint i"
    by (simp add: unsigned_ucast_eq)
  moreover have "sint (ucast i :: 64 word) = signed_take_bit 63 (uint (ucast i :: 64 word))"
    by (simp add: sint_uint)
  moreover have "signed_take_bit 63 (uint i) = uint i"
  proof (rule signed_take_bit_int_eq_self)
    have "- (2 ^ 63) \<le> (0::int)" by simp
    also have "0 \<le> uint i" by simp
    finally show "- (2 ^ 63) \<le> uint i" .
    show "uint i < 2 ^ 63" by (rule small)
  qed
  ultimately show ?thesis
    by (simp only: int64_def)
qed

text \<open>
  Claim C10. For an unsigned type of at least four bits (every unsigned integer type of
  Go has at least eight), \<open>String\<close> never panics: it returns the symbolic name for the
  values 0, 1, 2, 4 and 8, and \<open>DynamicStatusType(n)\<close> with \<open>n\<close> the decimal form of
  \<open>int64(i)\<close> for every other value. For a type of fewer than 64 bits \<open>int64(i)\<close>
  is the value of \<open>i\<close>.
\<close>

theorem C10_String_total:
  assumes "4 \<le> LENGTH('a::len)"
  shows "DynamicStatusType_String (i :: 'a word) =
     Some (if i = 0 then ''TDS_DYNAMIC_UNUSED''
           else if i = 1 then ''TDS_DYNAMIC_HASARGS''
           else if i = 2 then ''TDS_DYNAMIC_SUPPRESS_FMT''
           else if i = 4 then ''TDS_DYNAMIC_BATCH_PARAMS''
           else if i = 8 then ''TDS_DYNAMIC_SUPPRESS_PARAMFMT''
           else ''DynamicStatusType('' @ FormatInt (int64 i) @ '')'') \<and>
     (LENGTH('a) < 64 \<longrightarrow> int64 i = uint i)"
  using String_value [OF assms, of i] int64_uint [of i] by blast

theorem C10_witness:
  "4 \<le> LENGTH(8) \<and>
   DynamicStatusType_String (2 :: 8 word) = Some ''TDS_DYNAMIC_SUPPRESS_FMT'' \<and>
   DynamicStatusType_String (8 :: 8 word) = Some ''TDS_DYNAMIC_SUPPRESS_PARAMFMT'' \<and>
   DynamicStatusType_String (3 :: 8 word) = Some ''DynamicStatusType(3)'' \<and>
   DynamicStatusType_String (200 :: 8 word) = Some ''DynamicStatusType(200)'' \<and>
   int64 (200 :: 8 word) = 200"
  using C10_String_total [where 'a = 8, of 2] C10_String_total [where 'a = 8, of 8]
    C10_String_total [where 'a = 8, of 3] C10_String_total [where 'a = 8, of 200]
  by (simp add: FormatInt_def format_nat.simps)

section \<open>Properties of the splitter and the assembler\<close>

lemma EOM_set: "(s OR TDS_BUFSTAT_EOM) AND TDS_BUFSTAT_EOM = TDS_BUFSTAT_EOM"
  by (simp add: TDS_BUFSTAT_EOM_def word_bw_comms word_ao_absorbs)

lemma EOM_nonzero: "TDS_BUFSTAT_EOM \<noteq> 0"
  by (simp add: TDS_BUFSTAT_EOM_def)

lemma receive_chunk:
  assumes "pending asm ch = None \<and> buf = [] \<or> pending asm ch = Some (mt, buf)"
  shows "\<exists>asm1 gap. assembler_receive asm (wrap_chunk ch mt s nr chunk) =
           (asm1, gap,
            if s AND TDS_BUFSTAT_EOM \<noteq> 0
            then Some \<lparr>msg_type = mt, msg_status = s, msg_payload = buf @ chunk\<rparr> else None) \<and>
         ProtocolViolation \<notin> set gap \<and>
         pending asm1 ch = (if s AND TDS_BUFSTAT_EOM \<noteq> 0 then None else Some (mt, buf @ chunk))"
  using assms
  by (auto simp: assembler_receive_def wrap_chunk_def pending_def Let_def split: option.splits)

lemma ceil_base:
  "0 < c \<Longrightarrow> L \<le> c \<Longrightarrow> max 1 (L div c + (if L mod c = 0 then 0 else 1)) = (1::nat)"
  by (cases "L = c") auto

lemma ceil_step:
  assumes "0 < c" and "c < L"
  shows "Suc (max 1 ((L - c) div c + (if (L - c) mod c = 0 then 0 else 1))) =
         max 1 (L div c + (if L mod c = 0 then 0 else 1))"
proof -
  have d: "L div c = Suc ((L - c) div c)" using assms by (simp add: le_div_geq)
  have m: "L mod c = (L - c) mod c" using assms by (simp add: le_mod_geq)
  have pos: "0 < (L - c) div c" if "(L - c) mod c = 0"
  proof (rule ccontr)
    assume "\<not> 0 < (L - c) div c"
    then have "(L - c) div c = 0" by simp
    with that have "L - c = 0" using div_mult_mod_eq [of "L - c" c] by simp
    with assms show False by simp
  qed
  show ?thesis
  proof (cases "(L - c) mod c = 0")
    case True
    with pos [OF True] show ?thesis unfolding d m by simp
  next
    case False
    then show ?thesis unfolding d m by simp
  qed
qed


lemma split_then_assemble:
  assumes M: "9 \<le> M" and st: "status AND TDS_BUFSTAT_EOM = 0"
    and pend: "pending asm ch = None \<and> buf = [] \<or> pending asm ch = Some (mt, buf)"
  shows "\<exists>pkts asm' errs.
           split_message ch mt status M nr payload = Some pkts \<and>
           length pkts =
             max 1 (length payload div (M - 8) + (if length payload mod (M - 8) = 0 then 0 else 1)) \<and>
           assembler_run asm pkts =
             (asm', errs,
              [\<lparr>msg_type = mt, msg_status = status OR TDS_BUFSTAT_EOM, msg_payload = buf @ payload\<rparr>]) \<and>
           ProtocolViolation \<notin> set errs \<and> pending asm' ch = None"
  using pend
proof (induction "length payload" arbitrary: payload nr asm buf rule: less_induct)
  case less
  let ?c = "M - 8"
  have c: "0 < ?c" using M by simp
  show ?case
  proof (cases "length payload \<le> ?c")
    case True
    let ?p = "wrap_chunk ch mt (status OR TDS_BUFSTAT_EOM) (nr + 1) payload"
    have split: "split_message ch mt status M nr payload = Some [?p]"
      using True by (subst split_message.simps) (simp add: PacketHeaderSize_def)
    from receive_chunk [OF less.prems, of "status OR TDS_BUFSTAT_EOM" "nr + 1" payload]
    obtain asm1 gap where r: "assembler_receive asm ?p =
        (asm1, gap, Some \<lparr>msg_type = mt, msg_status = status OR TDS_BUFSTAT_EOM,
                            msg_payload = buf @ payload\<rparr>)"
      and g: "ProtocolViolation \<notin> set gap" and p: "pending asm1 ch = None"
      by (auto simp: EOM_set EOM_nonzero)
    have run: "assembler_run asm [?p] =
        (asm1, gap, [\<lparr>msg_type = mt, msg_status = status OR TDS_BUFSTAT_EOM,
                       msg_payload = buf @ payload\<rparr>])"
      by (simp add: r)
    have "length [?p] =
        max 1 (length payload div ?c + (if length payload mod ?c = 0 then 0 else 1))"
      unfolding ceil_base [OF c True] by simp
    with split run g p show ?thesis by blast
  next
    case False
    let ?hd = "take ?c payload" and ?tl = "drop ?c payload"
    let ?p = "wrap_chunk ch mt status (nr + 1) ?hd"
    from False have long: "?c < length payload" by simp
    from receive_chunk [OF less.prems, of status "nr + 1" ?hd]
    obtain asm1 gap where r: "assembler_receive asm ?p = (asm1, gap, None)"
      and g: "ProtocolViolation \<notin> set gap" and p: "pending asm1 ch = Some (mt, buf @ ?hd)"
      by (auto simp: st)
    have shorter: "length ?tl < length payload" using c long by simp
    from less.hyps [OF shorter, of asm1 "buf @ ?hd" "nr + 1"] p
    obtain pkts asm' errs where
      s': "split_message ch mt status M (nr + 1) ?tl = Some pkts"
      and n': "length pkts =
          max 1 (length ?tl div ?c + (if length ?tl mod ?c = 0 then 0 else 1))"
      and run': "assembler_run asm1 pkts =
          (asm', errs, [\<lparr>msg_type = mt, msg_status = status OR TDS_BUFSTAT_EOM,
                          msg_payload = (buf @ ?hd) @ ?tl\<rparr>])"
      and e': "ProtocolViolation \<notin> set errs" and p': "pending asm' ch = None"
      by blast
    have split: "split_message ch mt status M nr payload = Some (?p # pkts)"
      using False s' by (subst split_message.simps) (simp add: PacketHeaderSize_def)
    have run: "assembler_run asm (?p # pkts) =
        (asm', gap @ errs, [\<lparr>msg_type = mt, msg_status = status OR TDS_BUFSTAT_EOM,
                               msg_payload = buf @ payload\<rparr>])"
      using r run' by simp
    have "length (?p # pkts) =
        max 1 (length payload div ?c + (if length payload mod ?c = 0 then 0 else 1))"
      unfolding length_Cons n' length_drop by (rule ceil_step [OF c long])
    moreover have "ProtocolViolation \<notin> set (gap @ errs)" using g e' by simp
    ultimately show ?thesis using split run p' by blast
  qed
qed

lemma split_count:
  assumes M: "9 \<le> M"
  shows "\<exists>pkts. split_message ch mt status M nr payload = Some pkts \<and>
           length pkts =
             max 1 (length payload div (M - 8) + (if length payload mod (M - 8) = 0 then 0 else 1))"
proof (induction "length payload" arbitrary: payload nr rule: less_induct)
  case less
  let ?c = "M - 8"
  have c: "0 < ?c" using M by simp
  show ?case
  proof (cases "length payload \<le> ?c")
    case True
    then have "split_message ch mt status M nr payload =
        Some [wrap_chunk ch mt (status OR TDS_BUFSTAT_EOM) (nr + 1) payload]"
      by (subst split_message.simps) (simp add: PacketHeaderSize_def)
    then show ?thesis unfolding ceil_base [OF c True] by simp
  next
    case False
    then have long: "?c < length payload" by simp
    then have "length (drop ?c payload) < length payload" using c by simp
    from less.hyps [OF this, of "nr + 1"]
    obtain pkts where s': "split_message ch mt status M (nr + 1) (drop ?c payload) = Some pkts"
      and n': "length pkts =
          max 1 (length (drop ?c payload) div ?c +
                 (if length (drop ?c payload) mod ?c = 0 then 0 else 1))"
      by blast
    let ?p = "wrap_chunk ch mt status (nr + 1) (take ?c payload)"
    have "split_message ch mt status M nr payload = Some (?p # pkts)"
      using False s' by (subst split_message.simps) (simp add: PacketHeaderSize_def)
    moreover have "length (?p # pkts) =
        max 1 (length payload div ?c + (if length payload mod ?c = 0 then 0 else 1))"
      unfolding length_Cons n' length_drop by (rule ceil_step [OF c long])
    ultimately show ?thesis by blast
  qed
qed

text \<open>
  Claim C6. For a maximum packet size of at least 9 the splitter returns, and the number
  of packets is the payload length divided by \<open>M - 8\<close> and rounded up, but at least
  one. When the status bits the caller supplies do not hold the end-of-message bit and
  the assembler has no message in progress on the channel, feeding the packets to the
  assembler in order completes exactly one message, whose bytes are the payload, and no
  protocol violation is reported.
\<close>

theorem C6_split_assemble_inverse:
  assumes "9 \<le> M"
  shows "\<exists>pkts.
           split_message channel msgType status M lastNr payload = Some pkts \<and>
           length pkts =
             max 1 (length payload div (M - 8) + (if length payload mod (M - 8) = 0 then 0 else 1)) \<and>
           (status AND TDS_BUFSTAT_EOM = 0 \<and> pending asm channel = None \<longrightarrow>
              (\<exists>asm' errs.
                 assembler_run asm pkts =
                   (asm', errs,
                    [\<lparr>msg_type = msgType, msg_status = status OR TDS_BUFSTAT_EOM,
                       msg_payload = payload\<rparr>]) \<and>
                 ProtocolViolation \<notin> set errs))"
proof -
  from split_count [OF assms, of channel msgType status lastNr payload]
  obtain pkts where s: "split_message channel msgType status M lastNr payload = Some pkts"
    and n: "length pkts =
      max 1 (length payload div (M - 8) + (if length payload mod (M - 8) = 0 then 0 else 1))"
    by blast
  have r: "\<exists>asm' errs.
          assembler_run asm pkts =
            (asm', errs,
             [\<lparr>msg_type = msgType, msg_status = status OR TDS_BUFSTAT_EOM,
                msg_payload = payload\<rparr>]) \<and>
          ProtocolViolation \<notin> set errs"
    if "status AND TDS_BUFSTAT_EOM = 0" and "pending asm channel = None"
    using split_then_assemble [OF assms that(1), of asm channel "[]" msgType lastNr payload] that(2) s
    by auto
  show ?thesis
  proof (rule exI [of _ pkts], intro conjI impI)
    show "split_message channel msgType status M lastNr payload = Some pkts" by (rule s)
    show "length pkts =
      max 1 (length payload div (M - 8) + (if length payload mod (M - 8) = 0 then 0 else 1))"
      by (rule n)
    assume "status AND TDS_BUFSTAT_EOM = 0 \<and> pending asm channel = None"
    then show "\<exists>asm' errs.
          assembler_run asm pkts =
            (asm', errs,
             [\<lparr>msg_type = msgType, msg_status = status OR TDS_BUFSTAT_EOM,
                msg_payload = payload\<rparr>]) \<and>
          ProtocolViolation \<notin> set errs"
      using r by (elim conjE)
  qed
qed

theorem C6_witness:
  "(9::nat) \<le> 16 \<and>
   (\<exists>pkts.
      split_message 3 15 0x10 16 0 [1, 2, 3, 4, 5, 6, 7, 8, 9, 10, 11, 12, 13, 14, 15, 16, 17, 18, 19, 20]
        = Some pkts \<and>
      length pkts = 3 \<and>
      (\<exists>asm' errs.
         assembler_run Map.empty pkts =
           (asm', errs,
            [\<lparr>msg_type = 15, msg_status = 0x11,
               msg_payload = [1, 2, 3, 4, 5, 6, 7, 8, 9, 10, 11, 12, 13, 14, 15, 16, 17, 18, 19, 20]\<rparr>]) \<and>
         ProtocolViolation \<notin> set errs))"
  using C6_split_assemble_inverse [of 16 3 15 "0x10" 0
      "[1, 2, 3, 4, 5, 6, 7, 8, 9, 10, 11, 12, 13, 14, 15, 16, 17, 18, 19, 20]" Map.empty]
  by (simp add: pending_def TDS_BUFSTAT_EOM_def)

text \<open>
  Claim C7. Splitting an empty payload gives exactly one packet: its length field is 8,
  it has no payload bytes and its end-of-message bit is set. There is no other packet.
\<close>

theorem C7_empty_payload:
  "\<exists>p. split_message channel msgType status M lastNr [] = Some [p] \<and>
       Length (pkt_header p) = 8 \<and> pkt_payload p = [] \<and>
       Status (pkt_header p) AND TDS_BUFSTAT_EOM = TDS_BUFSTAT_EOM \<and>
       MsgType (pkt_header p) = msgType \<and> Channel (pkt_header p) = channel"
  by (subst split_message.simps)
    (simp add: wrap_chunk_def NewPacketHeader_def zero_header_def PacketHeaderSize_def EOM_set)

theorem C7_witness:
  "\<exists>p. split_message 3 6 0 512 41 [] = Some [p] \<and>
       Length (pkt_header p) = 8 \<and> pkt_payload p = [] \<and>
       Status (pkt_header p) AND TDS_BUFSTAT_EOM = TDS_BUFSTAT_EOM \<and>
       MsgType (pkt_header p) = 6 \<and> Channel (pkt_header p) = 3"
  using C7_empty_payload [of 3 6 0 512 41] by simp

end
